theory Spec2Isabelle
  imports Main
begin

section \<open>Compile-time configuration and the width model\<close>

text \<open>
  The source fixes two compile-time constants, \<^verbatim>\<open>InputWidth = 8\<close> and
  \<^verbatim>\<open>NumInputsLog2 = 3\<close>. They are kept as the fields of a record, so that the
  width functions can be studied for every choice of the constants; \<open>src_config\<close>
  is the choice the source makes. All \<^verbatim>\<open>constexpr int\<close> values are mathematical
  integers here: a constant expression that overflows \<^verbatim>\<open>int\<close> does not build.
\<close>

record config =
  InputWidth :: int
  NumInputsLog2 :: int

definition src_config :: config where
  "src_config = \<lparr>InputWidth = 8, NumInputsLog2 = 3\<rparr>"

text \<open>\<^verbatim>\<open>a << n\<close> on \<^verbatim>\<open>int\<close>, for a shift count \<open>n \<ge> 0\<close> (a negative count is undefined in C++).\<close>

definition shl :: "int \<Rightarrow> int \<Rightarrow> int" where
  "shl a n = a * 2 ^ nat n"

text \<open>\<^verbatim>\<open>a / b\<close> on \<^verbatim>\<open>int\<close>: C++ truncates towards zero.\<close>

definition cdiv :: "int \<Rightarrow> int \<Rightarrow> int" where
  "cdiv a b = sgn a * sgn b * (\<bar>a\<bar> div \<bar>b\<bar>)"

definition NumInputs :: "config \<Rightarrow> int" where
  "NumInputs cfg = shl 1 (NumInputsLog2 cfg)"

definition OutputWidthOfMul :: "int \<Rightarrow> int" where
  "OutputWidthOfMul inputWidth = inputWidth * 2 + 1"

definition BitWidthAtLayer :: "config \<Rightarrow> int \<Rightarrow> int" where
  "BitWidthAtLayer cfg layer = (InputWidth cfg + 1) * layer + InputWidth cfg"

definition ElementsInLayer :: "config \<Rightarrow> int \<Rightarrow> int" where
  "ElementsInLayer cfg layer = cdiv (NumInputs cfg) (shl 1 layer)"

definition OutputWidth :: "config \<Rightarrow> int" where
  "OutputWidth cfg = BitWidthAtLayer cfg (NumInputsLog2 cfg)"

section \<open>Fixed-point complex values\<close>

text \<open>
  \<^verbatim>\<open>ac_complex<ac_int<W, true>>\<close>: a pair of \<open>W\<close>-bit two's-complement integers. The
  parts are held as integers; \<open>ac_int W v\<close> is the value a \<open>W\<close>-bit signed \<^verbatim>\<open>ac_int\<close>
  keeps when \<open>v\<close> is assigned to it (the low \<open>W\<close> bits, read as two's complement).
\<close>

datatype ac_complex = ac_complex (ac_r: int) (ac_i: int)

definition ac_int :: "int \<Rightarrow> int \<Rightarrow> int" where
  "ac_int W v = signed_take_bit (nat (W - 1)) v"

definition ac_conv :: "int \<Rightarrow> ac_complex \<Rightarrow> ac_complex" where
  "ac_conv W z = ac_complex (ac_int W (ac_r z)) (ac_int W (ac_i z))"

text \<open>A value is representable in \<open>W\<close> signed bits.\<close>

definition fits_int :: "int \<Rightarrow> int \<Rightarrow> bool" where
  "fits_int W v \<longleftrightarrow> - (2 ^ nat (W - 1)) \<le> v \<and> v < 2 ^ nat (W - 1)"

definition fits :: "int \<Rightarrow> ac_complex \<Rightarrow> bool" where
  "fits W z \<longleftrightarrow> fits_int W (ac_r z) \<and> fits_int W (ac_i z)"

text \<open>
  The exact product of two complex integers, with the operand order of the library's
  \<^verbatim>\<open>operator*\<close>: \<^verbatim>\<open>(r1*r2 - i1*i2, i1*r2 + r1*i2)\<close>.
\<close>

instantiation ac_complex :: comm_monoid_mult
begin

definition one_ac_complex :: ac_complex where
  "one_ac_complex = ac_complex 1 0"

definition times_ac_complex :: "ac_complex \<Rightarrow> ac_complex \<Rightarrow> ac_complex" where
  "times_ac_complex a b =
     ac_complex (ac_r a * ac_r b - ac_i a * ac_i b) (ac_i a * ac_r b + ac_r a * ac_i b)"

instance
proof
  fix a b c :: ac_complex
  show "a * b * c = a * (b * c)"
    by (simp add: times_ac_complex_def algebra_simps)
  show "a * b = b * a"
    by (simp add: times_ac_complex_def algebra_simps)
  show "1 * a = a"
    by (simp add: times_ac_complex_def one_ac_complex_def)
qed

end

text \<open>
  \<^verbatim>\<open>operator*\<close> on two \<^verbatim>\<open>ac_complex<ac_int<W, true>>\<close>: the library returns the product
  in the type of part width \<open>W + W + 1\<close>.
\<close>

definition ac_complex_mult :: "int \<Rightarrow> ac_complex \<Rightarrow> ac_complex \<Rightarrow> ac_complex" where
  "ac_complex_mult W a b = ac_conv (W + W + 1) (a * b)"

text \<open>The constructors \<^verbatim>\<open>InputT(r, i)\<close> and \<^verbatim>\<open>OutputT(r, i)\<close>.\<close>

definition InputT :: "config \<Rightarrow> int \<Rightarrow> int \<Rightarrow> ac_complex" where
  "InputT cfg re im = ac_conv (InputWidth cfg) (ac_complex re im)"

definition OutputT :: "config \<Rightarrow> int \<Rightarrow> int \<Rightarrow> ac_complex" where
  "OutputT cfg re im = ac_conv (OutputWidth cfg) (ac_complex re im)"

section \<open>The unroller\<close>

text \<open>
  \<^verbatim>\<open>Unroller<Begin, End>::step(action)\<close> calls \<^verbatim>\<open>action(Begin)\<close> and then
  \<^verbatim>\<open>Unroller<Begin + 1, End>::step(action)\<close>; the specialisation
  \<^verbatim>\<open>Unroller<End, End>\<close> does nothing. The action works on captured state, so it is a
  state transformer indexed by the layer. The recursion is on the template
  arguments and has no other exit: where it never reaches \<open>Begin = End\<close> the
  instantiation does not end, which is the value \<open>None\<close>.
\<close>

partial_function (option)
  Unroller_step :: "int \<Rightarrow> int \<Rightarrow> (int \<Rightarrow> 's \<Rightarrow> 's) \<Rightarrow> 's \<Rightarrow> 's option" where
  "Unroller_step Begin End action s =
     (if Begin = End then Some s
      else Unroller_step (Begin + 1) End action (action Begin s))"

declare Unroller_step.simps [code]

text \<open>An action that records the index it is called with.\<close>

definition record_index :: "int \<Rightarrow> int list \<Rightarrow> int list" where
  "record_index idx tr = tr @ [idx]"

section \<open>The reduction kernel\<close>

text \<open>
  The inner loop of one layer, on the single array \<^verbatim>\<open>prevBuffer\<close> of \<^verbatim>\<open>OutputT\<close>
  (part width \<open>W\<close>):
  \<^verbatim>\<open>for (int i = 0; i < layerPairs; i++) prevBuffer[i] = prevBuffer[2*i]*prevBuffer[2*i+1];\<close>
  The product is converted to \<^verbatim>\<open>OutputT\<close> by the assignment. The buffer has
  \<^verbatim>\<open>NumInputs\<close> elements and the loop is only run with \<open>2 * layerPairs\<close> at most
  that many, so that every index it uses is inside the array.
\<close>

function layer_loop :: "int \<Rightarrow> int \<Rightarrow> int \<Rightarrow> ac_complex list \<Rightarrow> ac_complex list" where
  "layer_loop W i layerPairs prevBuffer =
     (if i < layerPairs
      then layer_loop W (i + 1) layerPairs
             (prevBuffer[nat i :=
                ac_conv W (ac_complex_mult W (prevBuffer ! nat (2 * i)) (prevBuffer ! nat (2 * i + 1)))])
      else prevBuffer)"
  by pat_completeness auto
termination
  by (relation "measure (\<lambda>(W, i, layerPairs, prevBuffer). nat (layerPairs - i))") auto

declare layer_loop.simps [simp del]

text \<open>The body of the lambda given to the unroller, for layer \<open>l\<close>.\<close>

definition layer_action :: "config \<Rightarrow> int \<Rightarrow> ac_complex list \<Rightarrow> ac_complex list" where
  "layer_action cfg l prevBuffer =
     (let layerElts = ElementsInLayer cfg l;
          layerPairs = cdiv layerElts 2
      in layer_loop (OutputWidth cfg) 0 layerPairs prevBuffer)"

text \<open>
  The kernel: the inputs are copied, element by element, into \<^verbatim>\<open>prevBuffer\<close> (each
  converted to \<^verbatim>\<open>OutputT\<close>), the layers \<open>0, \<dots>, NumInputsLog2 - 1\<close> run through the
  unroller, and \<^verbatim>\<open>prevBuffer[0]\<close> is the result.
\<close>

definition kernel :: "config \<Rightarrow> ac_complex list \<Rightarrow> ac_complex option" where
  "kernel cfg x =
     (case Unroller_step 0 (NumInputsLog2 cfg) (layer_action cfg)
             (map (ac_conv (OutputWidth cfg)) x) of
        None \<Rightarrow> None
      | Some prevBuffer \<Rightarrow> Some (prevBuffer ! 0))"

datatype error = AssertionFailed | NotInstantiable

text \<open>
  \<^verbatim>\<open>test_mult\<close>: the \<^verbatim>\<open>assert\<close> on the input length comes first; the kernel runs
  only behind it. The queue and the buffers only carry the values to the kernel and back.
\<close>

definition test_mult :: "config \<Rightarrow> ac_complex list \<Rightarrow> error + ac_complex" where
  "test_mult cfg inp =
     (if int (length inp) \<noteq> NumInputs cfg then Inl AssertionFailed
      else case kernel cfg inp of
             None \<Rightarrow> Inl NotInstantiable
           | Some out \<Rightarrow> Inr out)"

text \<open>The inputs and the expected value of \<^verbatim>\<open>main\<close>.\<close>

definition main_in :: "ac_complex list" where
  "main_in =
     [InputT src_config 10 20, InputT src_config 5 10, InputT src_config (- 20) 20,
      InputT src_config 20 4, InputT src_config 24 3, InputT src_config 4 3,
      InputT src_config 56 2, InputT src_config 34 24]"

definition main_expected :: ac_complex where
  "main_expected = OutputT src_config 1313 2016"

text \<open>Eight small inputs, and the eight inputs with both parts at the lower end of the range.\<close>

definition small_in :: "ac_complex list" where
  "small_in =
     [InputT src_config 1 2, InputT src_config 3 (- 1), InputT src_config (- 2) 2,
      InputT src_config 0 1, InputT src_config (- 1) 1, InputT src_config 2 0,
      InputT src_config 1 1, InputT src_config 1 (- 2)]"

definition extreme_in :: "ac_complex list" where
  "extreme_in = replicate 8 (InputT src_config (- 128) (- 128))"

section \<open>Overflow of the stored values\<close>

text \<open>
  The same loops, with a flag beside the buffer: the flag stays true as long as every
  product the loop computes is representable in the type it is assigned to, that is,
  as long as no assignment to \<^verbatim>\<open>prevBuffer[i]\<close> changes the value it stores.
\<close>

function layer_loop_fits :: "int \<Rightarrow> int \<Rightarrow> int \<Rightarrow> ac_complex list \<Rightarrow> bool" where
  "layer_loop_fits W i layerPairs prevBuffer =
     (if i < layerPairs
      then fits W (prevBuffer ! nat (2 * i) * prevBuffer ! nat (2 * i + 1)) \<and>
           layer_loop_fits W (i + 1) layerPairs
             (prevBuffer[nat i :=
                ac_conv W (ac_complex_mult W (prevBuffer ! nat (2 * i)) (prevBuffer ! nat (2 * i + 1)))])
      else True)"
  by pat_completeness auto
termination
  by (relation "measure (\<lambda>(W, i, layerPairs, prevBuffer). nat (layerPairs - i))") auto

declare layer_loop_fits.simps [simp del]

definition layer_action_fits ::
  "config \<Rightarrow> int \<Rightarrow> ac_complex list \<times> bool \<Rightarrow> ac_complex list \<times> bool" where
  "layer_action_fits cfg l st =
     (layer_action cfg l (fst st),
      snd st \<and> layer_loop_fits (OutputWidth cfg) 0 (cdiv (ElementsInLayer cfg l) 2) (fst st))"

definition no_overflow :: "config \<Rightarrow> ac_complex list \<Rightarrow> bool" where
  "no_overflow cfg x =
     (case Unroller_step 0 (NumInputsLog2 cfg) (layer_action_fits cfg)
             (map (ac_conv (OutputWidth cfg)) x, True) of
        None \<Rightarrow> False
      | Some st \<Rightarrow> snd st)"

text \<open>
  The intermediate values are the products of the layers \<open>0, \<dots>, NumInputsLog2 - 2\<close>;
  the product of the last layer is the result itself. The flag of the run that stops
  before the last layer says that no intermediate value overflows.
\<close>

definition no_intermediate_overflow :: "config \<Rightarrow> ac_complex list \<Rightarrow> bool" where
  "no_intermediate_overflow cfg x =
     (case Unroller_step 0 (NumInputsLog2 cfg - 1) (layer_action_fits cfg)
             (map (ac_conv (OutputWidth cfg)) x, True) of
        None \<Rightarrow> False
      | Some st \<Rightarrow> snd st)"

section \<open>The reduction with a fresh array per layer\<close>

text \<open>
  The reduction as the specification words it: \<open>WorkingArray(0)\<close> is the copy of the
  inputs, and \<open>WorkingArray(layer + 1)[i] = WorkingArray(layer)[2i] * WorkingArray(layer)[2i + 1]\<close>
  for \<open>i\<close> in \<open>[0, pairs)\<close> with \<open>pairs = ElementsAtLayer(layer) / 2\<close>: a new array for
  every layer, never written after it is built. The elements have the type the code
  stores them in.
\<close>

fun WorkingArray :: "config \<Rightarrow> ac_complex list \<Rightarrow> nat \<Rightarrow> ac_complex list" where
  "WorkingArray cfg x 0 = map (ac_conv (OutputWidth cfg)) x"
| "WorkingArray cfg x (Suc layer) =
     map (\<lambda>i. ac_conv (OutputWidth cfg)
                 (ac_complex_mult (OutputWidth cfg)
                    (WorkingArray cfg x layer ! (2 * i)) (WorkingArray cfg x layer ! (2 * i + 1))))
       [0 ..< nat (ElementsInLayer cfg (int layer) div 2)]"

definition ReductionResult :: "config \<Rightarrow> ac_complex list \<Rightarrow> ac_complex" where
  "ReductionResult cfg x = WorkingArray cfg x (nat (NumInputsLog2 cfg)) ! 0"

section \<open>Facts about the width model\<close>

lemma cdiv_nonneg: "0 \<le> a \<Longrightarrow> 0 < b \<Longrightarrow> cdiv a b = a div b"
  by (cases "a = 0") (simp_all add: cdiv_def)

lemma NumInputs_pow: "NumInputs cfg = 2 ^ nat (NumInputsLog2 cfg)"
  by (simp add: NumInputs_def shl_def)

lemma ElementsInLayer_div: "ElementsInLayer cfg layer = NumInputs cfg div 2 ^ nat layer"
  by (simp add: ElementsInLayer_def shl_def cdiv_nonneg NumInputs_pow)

section \<open>Facts about the layer loop\<close>

lemma layer_loop_length: "length (layer_loop W i p buf) = length buf"
proof (induction W i p buf rule: layer_loop.induct)
  case (1 W i p buf)
  then show ?case by (subst layer_loop.simps) simp
qed

lemma layer_loop_nth:
  "0 \<le> i \<Longrightarrow> k < length buf \<Longrightarrow>
   layer_loop W i p buf ! k =
     (if i \<le> int k \<and> int k < p
      then ac_conv W (ac_complex_mult W (buf ! (2 * k)) (buf ! (2 * k + 1)))
      else buf ! k)"
proof (induction W i p buf rule: layer_loop.induct)
  case (1 W i p buf)
  show ?case
  proof (cases "i < p")
    case False
    then show ?thesis by (subst layer_loop.simps) auto
  next
    case True
    let ?v = "ac_conv W (ac_complex_mult W (buf ! nat (2 * i)) (buf ! nat (2 * i + 1)))"
    let ?buf' = "buf[nat i := ?v]"
    have unf: "layer_loop W i p buf = layer_loop W (i + 1) p ?buf'"
      using True by (subst layer_loop.simps) simp
    have IH: "layer_loop W (i + 1) p ?buf' ! k =
      (if i + 1 \<le> int k \<and> int k < p
       then ac_conv W (ac_complex_mult W (?buf' ! (2 * k)) (?buf' ! (2 * k + 1)))
       else ?buf' ! k)"
      using "1.IH" [OF True] "1.prems" by simp
    show ?thesis
    proof (cases "i + 1 \<le> int k")
      case a: True
      then have "nat i \<noteq> 2 * k" "nat i \<noteq> 2 * k + 1" using "1.prems" by linarith+
      moreover have "nat i \<noteq> k" using a "1.prems" by linarith
      ultimately show ?thesis unfolding unf IH using a by simp
    next
      case b: False
      show ?thesis
      proof (cases "int k = i")
        case True
        then have k: "nat i = k" by simp
        have "nat (2 * i) = 2 * k" "nat (2 * i + 1) = 2 * k + 1" using True by linarith+
        then show ?thesis unfolding unf IH using b True k "1.prems" \<open>i < p\<close> by simp
      next
        case False
        then have "nat i \<noteq> k" using "1.prems" by linarith
        then show ?thesis unfolding unf IH using b False by simp
      qed
    qed
  qed
qed

lemma layer_loop_fits_iff:
  "0 \<le> i \<Longrightarrow>
   layer_loop_fits W i p buf \<longleftrightarrow>
     (\<forall>k. i \<le> int k \<and> int k < p \<longrightarrow> fits W (buf ! (2 * k) * buf ! (2 * k + 1)))"
proof (induction W i p buf rule: layer_loop_fits.induct)
  case (1 W i p buf)
  show ?case
  proof (cases "i < p")
    case False
    then show ?thesis by (subst layer_loop_fits.simps) auto
  next
    case True
    let ?v = "ac_conv W (ac_complex_mult W (buf ! nat (2 * i)) (buf ! nat (2 * i + 1)))"
    let ?buf' = "buf[nat i := ?v]"
    have unf: "layer_loop_fits W i p buf \<longleftrightarrow>
        fits W (buf ! nat (2 * i) * buf ! nat (2 * i + 1)) \<and> layer_loop_fits W (i + 1) p ?buf'"
      using True by (subst layer_loop_fits.simps) simp
    have IH: "layer_loop_fits W (i + 1) p ?buf' \<longleftrightarrow>
      (\<forall>k. i + 1 \<le> int k \<and> int k < p \<longrightarrow> fits W (?buf' ! (2 * k) * ?buf' ! (2 * k + 1)))"
      using "1.IH" [OF True] "1.prems" by simp
    have same: "?buf' ! (2 * k) * ?buf' ! (2 * k + 1) = buf ! (2 * k) * buf ! (2 * k + 1)"
      if "i + 1 \<le> int k" for k
    proof -
      have "nat i \<noteq> 2 * k" "nat i \<noteq> 2 * k + 1" using that "1.prems" by linarith+
      then show ?thesis by simp
    qed
    have i_nat: "nat (2 * i) = 2 * nat i" "nat (2 * i + 1) = 2 * nat i + 1"
      using "1.prems" by linarith+
    have rest: "layer_loop_fits W (i + 1) p ?buf' \<longleftrightarrow>
      (\<forall>k. i + 1 \<le> int k \<and> int k < p \<longrightarrow> fits W (buf ! (2 * k) * buf ! (2 * k + 1)))"
      unfolding IH using same by metis
    have split: "(i \<le> int k \<and> int k < p) \<longleftrightarrow> (k = nat i \<or> (i + 1 \<le> int k \<and> int k < p))" for k
      using True "1.prems" by auto
    have "(\<forall>k. i \<le> int k \<and> int k < p \<longrightarrow> fits W (buf ! (2 * k) * buf ! (2 * k + 1))) \<longleftrightarrow>
          fits W (buf ! (2 * nat i) * buf ! (2 * nat i + 1)) \<and>
          (\<forall>k. i + 1 \<le> int k \<and> int k < p \<longrightarrow> fits W (buf ! (2 * k) * buf ! (2 * k + 1)))"
      unfolding split by blast
    moreover have "layer_loop_fits W i p buf \<longleftrightarrow>
          fits W (buf ! (2 * nat i) * buf ! (2 * nat i + 1)) \<and>
          (\<forall>k. i + 1 \<le> int k \<and> int k < p \<longrightarrow> fits W (buf ! (2 * k) * buf ! (2 * k + 1)))"
      using unf rest by (simp only: i_nat)
    ultimately show ?thesis by (simp only:)
  qed
qed

section \<open>Facts about the unroller\<close>

lemma Unroller_step_Some_le:
  assumes "Unroller_step b e a s = Some y"
  shows "b \<le> e"
proof (rule Unroller_step.raw_induct [where P = "\<lambda>b e a s y. b \<le> e", OF _ assms])
  fix f :: "int \<Rightarrow> int \<Rightarrow> (int \<Rightarrow> 'a \<Rightarrow> 'a) \<Rightarrow> 'a \<Rightarrow> 'a option" and b e a s y
  assume IH: "\<And>b e a s y. f b e a s = Some y \<Longrightarrow> b \<le> e"
    and eq: "(if b = e then Some s else f (b + 1) e a (a b s)) = Some y"
  show "b \<le> e"
  proof (cases "b = e")
    case True then show ?thesis by simp
  next
    case False
    with eq have "f (b + 1) e a (a b s) = Some y" by simp
    from IH [OF this] show ?thesis by simp
  qed
qed

lemma Unroller_step_None: "e < b \<Longrightarrow> Unroller_step b e a s = None"
  using Unroller_step_Some_le [of b e a s] by (cases "Unroller_step b e a s") auto

lemma Unroller_step_fold:
  "b \<le> e \<Longrightarrow> Unroller_step b e a s = Some (fold a [b..e - 1] s)"
proof (induction "nat (e - b)" arbitrary: b s)
  case 0
  then show ?case by (simp add: Unroller_step.simps)
next
  case (Suc n)
  then have lt: "b < e" and n: "n = nat (e - (b + 1))" by linarith+
  have "Unroller_step b e a s = Unroller_step (b + 1) e a (a b s)"
    using lt by (subst Unroller_step.simps) simp
  also have "\<dots> = Some (fold a [b + 1..e - 1] (a b s))"
    using Suc.hyps(1)[OF n] lt by simp
  also have "fold a [b + 1..e - 1] (a b s) = fold a [b..e - 1] s"
    using lt by (simp add: upto_rec1[of b "e - 1"])
  finally show ?case .
qed

lemma fold_record_index: "fold record_index xs tr = tr @ xs"
  by (induction xs arbitrary: tr) (simp_all add: record_index_def)

section \<open>The layers of the in-place reduction\<close>

lemma ElementsInLayer_pow:
  assumes "0 \<le> NumInputsLog2 cfg" "l \<le> nat (NumInputsLog2 cfg)"
  shows "ElementsInLayer cfg (int l) = 2 ^ (nat (NumInputsLog2 cfg) - l)"
proof -
  have "(2::int) ^ nat (NumInputsLog2 cfg) div 2 ^ l = 2 ^ (nat (NumInputsLog2 cfg) - l)"
    using assms(2) by (simp add: power_diff)
  then show ?thesis by (simp add: ElementsInLayer_div NumInputs_pow)
qed

lemma layerPairs_pow:
  assumes "0 \<le> NumInputsLog2 cfg" "l < nat (NumInputsLog2 cfg)"
  shows "cdiv (ElementsInLayer cfg (int l)) 2 = 2 ^ (nat (NumInputsLog2 cfg) - Suc l)"
    and "ElementsInLayer cfg (int l) div 2 = 2 ^ (nat (NumInputsLog2 cfg) - Suc l)"
proof -
  have "nat (NumInputsLog2 cfg) - l = Suc (nat (NumInputsLog2 cfg) - Suc l)"
    using assms(2) by simp
  then have e: "ElementsInLayer cfg (int l) = 2 * 2 ^ (nat (NumInputsLog2 cfg) - Suc l)"
    using ElementsInLayer_pow [OF assms(1), of l] assms(2) by simp
  show "ElementsInLayer cfg (int l) div 2 = 2 ^ (nat (NumInputsLog2 cfg) - Suc l)"
    unfolding e by simp
  then show "cdiv (ElementsInLayer cfg (int l)) 2 = 2 ^ (nat (NumInputsLog2 cfg) - Suc l)"
    unfolding e by (simp add: cdiv_nonneg)
qed

lemma layer_action_length: "length (layer_action cfg l buf) = length buf"
  by (simp add: layer_action_def layer_loop_length)

lemma layer_action_nth:
  assumes "0 \<le> NumInputsLog2 cfg" "l < nat (NumInputsLog2 cfg)" "j < length buf"
  shows "layer_action cfg (int l) buf ! j =
     (if j < 2 ^ (nat (NumInputsLog2 cfg) - Suc l)
      then ac_conv (OutputWidth cfg)
             (ac_complex_mult (OutputWidth cfg) (buf ! (2 * j)) (buf ! (2 * j + 1)))
      else buf ! j)"
proof -
  have "int j < 2 ^ (nat (NumInputsLog2 cfg) - Suc l) \<longleftrightarrow> j < 2 ^ (nat (NumInputsLog2 cfg) - Suc l)"
    by (metis of_nat_less_iff of_nat_numeral of_nat_power)
  then show ?thesis
    using layer_loop_nth [of 0 j buf "OutputWidth cfg" "cdiv (ElementsInLayer cfg (int l)) 2"] assms
    by (simp add: layer_action_def layerPairs_pow)
qed

lemma fold_layers_Suc:
  "fold f [0..int l] s = f (int l) (fold f [0..int l - 1] s)"
proof -
  have "[0..int l] = [0..int l - 1] @ [int l]"
    using upto_rec2 [of 0 "int l"] by simp
  then show ?thesis by simp
qed

lemma fold_layers_length:
  "length (fold (layer_action cfg) [0..int l - 1] buf) = length buf"
  by (induction l) (simp_all add: fold_layers_Suc layer_action_length)

lemma fold_layers_WorkingArray:
  assumes K: "0 \<le> NumInputsLog2 cfg"
    and len: "length x = 2 ^ nat (NumInputsLog2 cfg)"
    and l: "l \<le> nat (NumInputsLog2 cfg)"
  shows "take (2 ^ (nat (NumInputsLog2 cfg) - l))
           (fold (layer_action cfg) [0..int l - 1] (map (ac_conv (OutputWidth cfg)) x))
         = WorkingArray cfg x l"
  using l
proof (induction l)
  case 0
  then show ?case using len by simp
next
  case (Suc l)
  let ?k = "nat (NumInputsLog2 cfg)"
  let ?W = "OutputWidth cfg"
  let ?buf = "fold (layer_action cfg) [0..int l - 1] (map (ac_conv ?W) x)"
  let ?n = "(2::nat) ^ (?k - Suc l)"
  from Suc.prems have lk: "l < ?k" by simp
  have IH: "take (2 ^ (?k - l)) ?buf = WorkingArray cfg x l"
    using Suc.IH lk by simp
  have two: "(2::nat) ^ (?k - l) = 2 * ?n"
    using lk by (metis Suc_diff_Suc power_Suc)
  have lenbuf: "length ?buf = 2 ^ ?k"
    by (simp add: fold_layers_length len)
  have nle: "?n \<le> length ?buf"
    unfolding lenbuf by (simp add: power_increasing)
  have n2le: "2 * ?n \<le> length ?buf"
    unfolding lenbuf two [symmetric] by (simp add: power_increasing)
  have WA: "WorkingArray cfg x l ! j = ?buf ! j" if "j < 2 * ?n" for j
    using that IH [symmetric] two by simp
  have "take ?n (layer_action cfg (int l) ?buf) =
        map (\<lambda>i. ac_conv ?W (ac_complex_mult ?W (?buf ! (2 * i)) (?buf ! (2 * i + 1)))) [0..<?n]"
  proof (rule nth_equalityI)
    show "length (take ?n (layer_action cfg (int l) ?buf)) = length (map (\<lambda>i. ac_conv ?W (ac_complex_mult ?W (?buf ! (2 * i)) (?buf ! (2 * i + 1)))) [0..<?n])"
      using nle by (simp add: layer_action_length)
  next
    fix j assume "j < length (take ?n (layer_action cfg (int l) ?buf))"
    then have j: "j < ?n" by simp
    then have "j < length ?buf" using nle by simp
    from layer_action_nth [OF K lk this] j
    show "take ?n (layer_action cfg (int l) ?buf) ! j =
          map (\<lambda>i. ac_conv ?W (ac_complex_mult ?W (?buf ! (2 * i)) (?buf ! (2 * i + 1)))) [0..<?n] ! j"
      by simp
  qed
  also have "\<dots> = map (\<lambda>i. ac_conv ?W (ac_complex_mult ?W (WorkingArray cfg x l ! (2 * i))
                        (WorkingArray cfg x l ! (2 * i + 1)))) [0..<?n]"
    by (rule map_cong [OF refl]) (simp add: WA)
  also have "\<dots> = WorkingArray cfg x (Suc l)"
    using layerPairs_pow(2) [OF K lk] by (simp add: nat_power_eq)
  finally show ?case by (simp add: fold_layers_Suc)
qed

lemma kernel_WorkingArray:
  assumes K: "0 \<le> NumInputsLog2 cfg"
    and len: "length x = 2 ^ nat (NumInputsLog2 cfg)"
  shows "kernel cfg x = Some (ReductionResult cfg x)"
proof -
  let ?buf = "fold (layer_action cfg) [0..NumInputsLog2 cfg - 1] (map (ac_conv (OutputWidth cfg)) x)"
  have "take 1 ?buf = WorkingArray cfg x (nat (NumInputsLog2 cfg))"
    using fold_layers_WorkingArray [OF K len, of "nat (NumInputsLog2 cfg)"] K by simp
  then have "?buf ! 0 = WorkingArray cfg x (nat (NumInputsLog2 cfg)) ! 0"
    by (metis nth_take zero_less_one)
  then show ?thesis
    using Unroller_step_fold [of 0 "NumInputsLog2 cfg" "layer_action cfg"
        "map (ac_conv (OutputWidth cfg)) x"] K
    by (simp add: kernel_def ReductionResult_def)
qed

lemma test_mult_WorkingArray:
  assumes K: "0 \<le> NumInputsLog2 cfg"
    and len: "int (length x) = NumInputs cfg"
  shows "test_mult cfg x = Inr (ReductionResult cfg x)"
proof -
  have "length x = 2 ^ nat (NumInputsLog2 cfg)"
    using len by (simp add: NumInputs_pow)
  from kernel_WorkingArray [OF K this] len show ?thesis
    by (simp add: test_mult_def)
qed

section \<open>Conversion to a narrower type\<close>

lemma ac_int_idem: "ac_int W (ac_int W v) = ac_int W v"
  by (simp add: ac_int_def)

lemma ac_int_narrow: "ac_int W (ac_int (2 * W + 1) v) = ac_int W v"
proof -
  have "min (nat (W - 1)) (nat (2 * W)) = nat (W - 1)" by linarith
  then show ?thesis by (simp add: ac_int_def)
qed

lemma ac_int_mult: "ac_int W (ac_int W a * ac_int W b) = ac_int W (a * b)"
  by (simp add: ac_int_def signed_take_bit_mult)

lemma ac_int_diff: "ac_int W (ac_int W a - ac_int W b) = ac_int W (a - b)"
  by (simp add: ac_int_def signed_take_bit_diff)

lemma ac_int_add: "ac_int W (ac_int W a + ac_int W b) = ac_int W (a + b)"
  by (simp add: ac_int_def signed_take_bit_add)

lemma ac_int_fits: "ac_int W v = v \<longleftrightarrow> fits_int W v"
  by (simp add: ac_int_def fits_int_def signed_take_bit_int_eq_self_iff)

lemma ac_int_mod:
  "ac_int W v = (v + 2 ^ nat (W - 1)) mod 2 ^ Suc (nat (W - 1)) - 2 ^ nat (W - 1)"
  by (simp add: ac_int_def signed_take_bit_eq_take_bit_shift take_bit_eq_mod)

lemma ac_conv_idem: "ac_conv W (ac_conv W z) = ac_conv W z"
  by (simp add: ac_conv_def ac_int_idem)

lemma ac_conv_fits: "ac_conv W z = z \<longleftrightarrow> fits W z"
  by (cases z) (simp add: ac_conv_def fits_def ac_int_fits)

lemma fits_ac_conv: "fits W (ac_conv W z)"
  using ac_conv_fits [of W "ac_conv W z"] by (simp add: ac_conv_idem)

lemma ac_conv_times: "ac_conv W (ac_conv W a * ac_conv W b) = ac_conv W (a * b)"
proof -
  have r: "ac_int W (ac_int W (ac_r a) * ac_int W (ac_r b) - ac_int W (ac_i a) * ac_int W (ac_i b))
      = ac_int W (ac_r a * ac_r b - ac_i a * ac_i b)"
    by (metis ac_int_diff ac_int_mult)
  have i: "ac_int W (ac_int W (ac_i a) * ac_int W (ac_r b) + ac_int W (ac_r a) * ac_int W (ac_i b))
      = ac_int W (ac_i a * ac_r b + ac_r a * ac_i b)"
    by (metis ac_int_add ac_int_mult)
  show ?thesis
    by (simp add: ac_conv_def times_ac_complex_def r i)
qed

lemma ac_conv_store: "ac_conv W (ac_complex_mult W a b) = ac_conv W (a * b)"
  by (simp add: ac_complex_mult_def ac_conv_def ac_int_narrow)

lemma ac_conv_prod_list: "ac_conv W (prod_list (map (ac_conv W) xs)) = ac_conv W (prod_list xs)"
proof (induction xs)
  case Nil
  show ?case by simp
next
  case (Cons x xs)
  have "ac_conv W (ac_conv W x * prod_list (map (ac_conv W) xs))
      = ac_conv W (ac_conv W (ac_conv W x) * ac_conv W (prod_list (map (ac_conv W) xs)))"
    by (simp only: ac_conv_times)
  also have "\<dots> = ac_conv W (ac_conv W x * ac_conv W (prod_list xs))"
    by (simp only: Cons.IH ac_conv_idem)
  also have "\<dots> = ac_conv W (x * prod_list xs)"
    by (rule ac_conv_times)
  finally show ?case by simp
qed

lemma prod_list_pairs:
  fixes xs :: "ac_complex list"
  shows "2 * n \<le> length xs \<Longrightarrow>
    prod_list (map (\<lambda>i. xs ! (2 * i) * xs ! (2 * i + 1)) [0..<n]) = prod_list (take (2 * n) xs)"
proof (induction n)
  case 0
  show ?case by simp
next
  case (Suc n)
  then have a: "2 * n < length xs" and b: "Suc (2 * n) < length xs" by simp_all
  have "take (2 * Suc n) xs = take (2 * n) xs @ [xs ! (2 * n), xs ! (Suc (2 * n))]"
    using a b by (simp add: take_Suc_conv_app_nth)
  then show ?case using Suc by (simp add: mult.assoc)
qed

section \<open>The arrays of the layers\<close>

lemma WorkingArray_Suc_conv:
  "WorkingArray cfg x (Suc l) =
     map (ac_conv (OutputWidth cfg))
       (map (\<lambda>i. WorkingArray cfg x l ! (2 * i) * WorkingArray cfg x l ! (2 * i + 1))
          [0 ..< nat (ElementsInLayer cfg (int l) div 2)])"
  by (simp add: ac_conv_store)

lemma WorkingArray_length:
  assumes K: "0 \<le> NumInputsLog2 cfg"
    and len: "length x = 2 ^ nat (NumInputsLog2 cfg)"
    and l: "l \<le> nat (NumInputsLog2 cfg)"
  shows "length (WorkingArray cfg x l) = 2 ^ (nat (NumInputsLog2 cfg) - l)"
proof (cases l)
  case 0
  then show ?thesis using len by simp
next
  case (Suc m)
  then have "m < nat (NumInputsLog2 cfg)" using l by simp
  from layerPairs_pow(2) [OF K this] show ?thesis
    unfolding Suc by (simp add: nat_power_eq)
qed

lemma WorkingArray_canonical:
  "z \<in> set (WorkingArray cfg x l) \<Longrightarrow> ac_conv (OutputWidth cfg) z = z"
  by (cases l) (auto simp: ac_conv_idem)

lemma WorkingArray_pairs:
  assumes K: "0 \<le> NumInputsLog2 cfg"
    and len: "length x = 2 ^ nat (NumInputsLog2 cfg)"
    and l: "l < nat (NumInputsLog2 cfg)"
  shows "prod_list (map (\<lambda>i. WorkingArray cfg x l ! (2 * i) * WorkingArray cfg x l ! (2 * i + 1))
          [0 ..< nat (ElementsInLayer cfg (int l) div 2)]) = prod_list (WorkingArray cfg x l)"
proof -
  let ?k = "nat (NumInputsLog2 cfg)"
  let ?n = "(2::nat) ^ (?k - Suc l)"
  have n: "nat (ElementsInLayer cfg (int l) div 2) = ?n"
    using layerPairs_pow(2) [OF K l] by (simp add: nat_power_eq)
  have two: "(2::nat) ^ (?k - l) = 2 * ?n"
    using l by (metis Suc_diff_Suc power_Suc)
  have L: "length (WorkingArray cfg x l) = 2 * ?n"
    using WorkingArray_length [OF K len, of l] l two by simp
  show ?thesis
    unfolding n using prod_list_pairs [of ?n "WorkingArray cfg x l"] L by simp
qed

lemma WorkingArray_prod_conv:
  assumes K: "0 \<le> NumInputsLog2 cfg"
    and len: "length x = 2 ^ nat (NumInputsLog2 cfg)"
    and l: "l \<le> nat (NumInputsLog2 cfg)"
  shows "ac_conv (OutputWidth cfg) (prod_list (WorkingArray cfg x l)) =
         ac_conv (OutputWidth cfg) (prod_list x)"
  using l
proof (induction l)
  case 0
  show ?case by (simp add: ac_conv_prod_list)
next
  case (Suc l)
  then have lk: "l < nat (NumInputsLog2 cfg)" by simp
  have "ac_conv (OutputWidth cfg) (prod_list (WorkingArray cfg x (Suc l))) =
        ac_conv (OutputWidth cfg) (prod_list (WorkingArray cfg x l))"
    unfolding WorkingArray_Suc_conv ac_conv_prod_list WorkingArray_pairs [OF K len lk] ..
  then show ?case using Suc.IH lk by simp
qed

lemma singleton_nth0: "length xs = Suc 0 \<Longrightarrow> xs = [xs ! 0]"
  by (cases xs) simp_all

lemma ReductionResult_conv:
  assumes K: "0 \<le> NumInputsLog2 cfg"
    and len: "length x = 2 ^ nat (NumInputsLog2 cfg)"
  shows "ReductionResult cfg x = ac_conv (OutputWidth cfg) (prod_list x)"
proof -
  let ?A = "WorkingArray cfg x (nat (NumInputsLog2 cfg))"
  have "length ?A = Suc 0"
    using WorkingArray_length [OF K len, of "nat (NumInputsLog2 cfg)"] by simp
  then have A: "?A = [?A ! 0]" by (rule singleton_nth0)
  then have "?A ! 0 \<in> set ?A" by (metis list.set_intros(1))
  then have "ac_conv (OutputWidth cfg) (?A ! 0) = ?A ! 0"
    by (rule WorkingArray_canonical)
  moreover have "prod_list ?A = ?A ! 0"
    by (subst A) simp
  ultimately show ?thesis
    using WorkingArray_prod_conv [OF K len, of "nat (NumInputsLog2 cfg)"]
    by (simp add: ReductionResult_def)
qed

lemma length_of_NumInputs:
  "int (length x) = NumInputs cfg \<Longrightarrow> length x = 2 ^ nat (NumInputsLog2 cfg)"
  by (simp add: NumInputs_pow)

section \<open>Runs without overflow\<close>

lemma fst_fold_layer_action_fits:
  "fst (fold (layer_action_fits cfg) [0..int l - 1] st) =
     fold (layer_action cfg) [0..int l - 1] (fst st)"
  by (induction l) (simp_all add: fold_layers_Suc layer_action_fits_def)

lemma snd_fold_layer_action_fits:
  "snd (fold (layer_action_fits cfg) [0..int l - 1] (buf, True)) \<longleftrightarrow>
     (\<forall>m < l. layer_loop_fits (OutputWidth cfg) 0 (cdiv (ElementsInLayer cfg (int m)) 2)
                 (fold (layer_action cfg) [0..int m - 1] buf))"
proof (induction l)
  case 0
  show ?case by simp
next
  case (Suc l)
  have "snd (fold (layer_action_fits cfg) [0..int (Suc l) - 1] (buf, True)) \<longleftrightarrow>
        snd (fold (layer_action_fits cfg) [0..int l - 1] (buf, True)) \<and>
        layer_loop_fits (OutputWidth cfg) 0 (cdiv (ElementsInLayer cfg (int l)) 2)
          (fold (layer_action cfg) [0..int l - 1] buf)"
    using fst_fold_layer_action_fits [of cfg l "(buf, True)"]
    by (simp add: fold_layers_Suc layer_action_fits_def)
  then show ?case
    unfolding Suc.IH by (auto simp: less_Suc_eq)
qed

lemma no_overflow_layers:
  assumes K: "0 \<le> NumInputsLog2 cfg"
  shows "no_overflow cfg x \<longleftrightarrow>
     (\<forall>m < nat (NumInputsLog2 cfg).
        layer_loop_fits (OutputWidth cfg) 0 (cdiv (ElementsInLayer cfg (int m)) 2)
          (fold (layer_action cfg) [0..int m - 1] (map (ac_conv (OutputWidth cfg)) x)))"
proof -
  have "Unroller_step 0 (NumInputsLog2 cfg) (layer_action_fits cfg)
          (map (ac_conv (OutputWidth cfg)) x, True)
        = Some (fold (layer_action_fits cfg) [0..int (nat (NumInputsLog2 cfg)) - 1]
                  (map (ac_conv (OutputWidth cfg)) x, True))"
    using Unroller_step_fold [of 0 "NumInputsLog2 cfg" "layer_action_fits cfg"
        "(map (ac_conv (OutputWidth cfg)) x, True)"] K by simp
  then show ?thesis
    using snd_fold_layer_action_fits [of cfg "nat (NumInputsLog2 cfg)" "map (ac_conv (OutputWidth cfg)) x"]
    by (simp add: no_overflow_def)
qed

lemma no_overflow_WorkingArray:
  assumes K: "0 \<le> NumInputsLog2 cfg"
    and len: "length x = 2 ^ nat (NumInputsLog2 cfg)"
    and ok: "no_overflow cfg x"
    and m: "m < nat (NumInputsLog2 cfg)"
    and j: "j < 2 ^ (nat (NumInputsLog2 cfg) - Suc m)"
  shows "fits (OutputWidth cfg) (WorkingArray cfg x m ! (2 * j) * WorkingArray cfg x m ! (2 * j + 1))"
proof -
  let ?k = "nat (NumInputsLog2 cfg)"
  let ?buf = "fold (layer_action cfg) [0..int m - 1] (map (ac_conv (OutputWidth cfg)) x)"
  have "layer_loop_fits (OutputWidth cfg) 0 (cdiv (ElementsInLayer cfg (int m)) 2) ?buf"
    using ok m unfolding no_overflow_layers [OF K] by blast
  then have all: "\<forall>k. int k < 2 ^ (?k - Suc m) \<longrightarrow> fits (OutputWidth cfg) (?buf ! (2 * k) * ?buf ! (2 * k + 1))"
    unfolding layerPairs_pow(1) [OF K m] by (subst (asm) layer_loop_fits_iff) simp_all
  have "int j < 2 ^ (?k - Suc m)"
    using j by (metis of_nat_less_iff of_nat_numeral of_nat_power)
  with all have f: "fits (OutputWidth cfg) (?buf ! (2 * j) * ?buf ! (2 * j + 1))" by blast
  have two: "(2::nat) ^ (?k - m) = 2 * 2 ^ (?k - Suc m)"
    using m by (metis Suc_diff_Suc power_Suc)
  have "take (2 ^ (?k - m)) ?buf = WorkingArray cfg x m"
    using fold_layers_WorkingArray [OF K len, of m] m by simp
  then have "WorkingArray cfg x m ! i = ?buf ! i" if "i < 2 * 2 ^ (?k - Suc m)" for i
    using that two by (metis nth_take)
  then show ?thesis using f j by simp
qed

lemma fits_mono: "fits V z \<Longrightarrow> V \<le> W \<Longrightarrow> fits W z"
proof -
  assume f: "fits V z" and le: "V \<le> W"
  have "(2::int) ^ nat (V - 1) \<le> 2 ^ nat (W - 1)"
    using le by (intro power_increasing) simp_all
  then show ?thesis using f unfolding fits_def fits_int_def by linarith
qed

lemma InputWidth_le_OutputWidth:
  "0 \<le> InputWidth cfg \<Longrightarrow> 0 \<le> NumInputsLog2 cfg \<Longrightarrow> InputWidth cfg \<le> OutputWidth cfg"
  by (simp add: OutputWidth_def BitWidthAtLayer_def)

lemma WorkingArray_prod_exact:
  assumes K: "0 \<le> NumInputsLog2 cfg"
    and IW: "0 \<le> InputWidth cfg"
    and len: "length x = 2 ^ nat (NumInputsLog2 cfg)"
    and inp: "\<forall>z \<in> set x. fits (InputWidth cfg) z"
    and ok: "no_overflow cfg x"
    and l: "l \<le> nat (NumInputsLog2 cfg)"
  shows "prod_list (WorkingArray cfg x l) = prod_list x"
  using l
proof (induction l)
  case 0
  have "ac_conv (OutputWidth cfg) z = z" if "z \<in> set x" for z
    using that inp fits_mono [OF _ InputWidth_le_OutputWidth [OF IW K]]
    unfolding ac_conv_fits by blast
  then have "map (ac_conv (OutputWidth cfg)) x = x"
    by (simp add: map_idI)
  then show ?case by simp
next
  case (Suc l)
  then have lk: "l < nat (NumInputsLog2 cfg)" by simp
  let ?n = "(2::nat) ^ (nat (NumInputsLog2 cfg) - Suc l)"
  let ?A = "WorkingArray cfg x l"
  have n: "nat (ElementsInLayer cfg (int l) div 2) = ?n"
    using layerPairs_pow(2) [OF K lk] by (simp add: nat_power_eq)
  have "WorkingArray cfg x (Suc l) =
      map (\<lambda>i. ac_conv (OutputWidth cfg) (?A ! (2 * i) * ?A ! (2 * i + 1))) [0..<?n]"
    unfolding WorkingArray_Suc_conv n by simp
  also have "\<dots> = map (\<lambda>i. ?A ! (2 * i) * ?A ! (2 * i + 1)) [0..<?n]"
  proof (rule map_cong [OF refl])
    fix i assume "i \<in> set [0..<?n]"
    then have "i < ?n" by simp
    from no_overflow_WorkingArray [OF K len ok lk this]
    show "ac_conv (OutputWidth cfg) (?A ! (2 * i) * ?A ! (2 * i + 1)) = ?A ! (2 * i) * ?A ! (2 * i + 1)"
      by (simp only: ac_conv_fits)
  qed
  finally have "WorkingArray cfg x (Suc l) = map (\<lambda>i. ?A ! (2 * i) * ?A ! (2 * i + 1)) [0..<?n]" .
  then have "prod_list (WorkingArray cfg x (Suc l)) = prod_list ?A"
    using WorkingArray_pairs [OF K len lk] by (simp only: n)
  then show ?case using Suc.IH lk by simp
qed

lemma ReductionResult_exact:
  assumes K: "0 \<le> NumInputsLog2 cfg"
    and IW: "0 \<le> InputWidth cfg"
    and len: "length x = 2 ^ nat (NumInputsLog2 cfg)"
    and inp: "\<forall>z \<in> set x. fits (InputWidth cfg) z"
    and ok: "no_overflow cfg x"
  shows "ReductionResult cfg x = prod_list x"
proof -
  let ?A = "WorkingArray cfg x (nat (NumInputsLog2 cfg))"
  have "length ?A = Suc 0"
    using WorkingArray_length [OF K len, of "nat (NumInputsLog2 cfg)"] by simp
  then have A: "?A = [?A ! 0]" by (rule singleton_nth0)
  have "prod_list ?A = ?A ! 0"
    by (subst A) simp
  then show ?thesis
    using WorkingArray_prod_exact [OF K IW len inp ok, of "nat (NumInputsLog2 cfg)"]
    by (simp add: ReductionResult_def)
qed

section \<open>The width model\<close>

text \<open>
  Claim C3. The source comments \<^verbatim>\<open>BitWidthAtLayer\<close> as the closed form of "a layer of
  width x produces a layer of width 2x+1", that is, of the recurrence
  \<open>WidthAtLayer(l + 1) = OutputWidthOfMul(WidthAtLayer(l))\<close>. The code's closed form
  does not solve this recurrence: with the source's constants it gives 26 bits for
  layer 2, where the recurrence asks for \<open>2 * 17 + 1 = 35\<close>.
\<close>

theorem BitWidthAtLayer_breaks_recurrence:
  "BitWidthAtLayer src_config (1 + 1) = 26 \<and>
   OutputWidthOfMul (BitWidthAtLayer src_config 1) = 35 \<and>
   BitWidthAtLayer src_config (0 + 1) = OutputWidthOfMul (BitWidthAtLayer src_config 0)"
  by (simp add: src_config_def BitWidthAtLayer_def OutputWidthOfMul_def)

text \<open>
  Claim C6. The width grows by exactly \<open>InputWidth + 1\<close> from each layer to the next,
  and so strictly, for every layer (in particular for every layer in \<open>[0, K)\<close>).
\<close>

theorem BitWidthAtLayer_step:
  "0 \<le> InputWidth cfg \<Longrightarrow>
   BitWidthAtLayer cfg (layer + 1) = BitWidthAtLayer cfg layer + InputWidth cfg + 1 \<and>
   BitWidthAtLayer cfg layer < BitWidthAtLayer cfg (layer + 1)"
  by (simp add: BitWidthAtLayer_def algebra_simps)

theorem BitWidthAtLayer_step_witness:
  "0 \<le> InputWidth src_config \<and>
   BitWidthAtLayer src_config (2 + 1) = BitWidthAtLayer src_config 2 + InputWidth src_config + 1 \<and>
   BitWidthAtLayer src_config 2 < BitWidthAtLayer src_config (2 + 1) \<and>
   BitWidthAtLayer src_config 2 = 26 \<and> BitWidthAtLayer src_config (2 + 1) = 35"
  using BitWidthAtLayer_step [of src_config 2]
  by (simp add: src_config_def BitWidthAtLayer_def)

text \<open>
  Claim C7. \<open>ElementsInLayer(layer) = N / 2^layer\<close>; each layer has half the elements
  of the one before, and layer \<open>K = NumInputsLog2\<close> has exactly one element.
\<close>

theorem ElementsInLayer_halving:
  "0 \<le> NumInputsLog2 cfg \<Longrightarrow> 0 \<le> layer \<Longrightarrow>
   ElementsInLayer cfg layer = NumInputs cfg div 2 ^ nat layer \<and>
   ElementsInLayer cfg (layer + 1) = ElementsInLayer cfg layer div 2 \<and>
   ElementsInLayer cfg (NumInputsLog2 cfg) = 1"
proof (intro conjI)
  assume l: "0 \<le> layer"
  show "ElementsInLayer cfg layer = NumInputs cfg div 2 ^ nat layer"
    by (rule ElementsInLayer_div)
  have "nat (layer + 1) = Suc (nat layer)" using l by simp
  moreover have "NumInputs cfg div (2 ^ nat layer * 2) = NumInputs cfg div 2 ^ nat layer div 2"
    by (rule zdiv_zmult2_eq) simp
  ultimately show "ElementsInLayer cfg (layer + 1) = ElementsInLayer cfg layer div 2"
    by (simp add: ElementsInLayer_div mult.commute)
  show "ElementsInLayer cfg (NumInputsLog2 cfg) = 1"
    by (simp add: ElementsInLayer_div NumInputs_pow)
qed

theorem ElementsInLayer_halving_witness:
  "0 \<le> NumInputsLog2 src_config \<and> (0::int) \<le> 1 \<and>
   ElementsInLayer src_config 1 = NumInputs src_config div 2 ^ nat 1 \<and>
   ElementsInLayer src_config (1 + 1) = ElementsInLayer src_config 1 div 2 \<and>
   ElementsInLayer src_config (NumInputsLog2 src_config) = 1 \<and>
   ElementsInLayer src_config 1 = 4 \<and> ElementsInLayer src_config (1 + 1) = 2"
  using ElementsInLayer_halving [of src_config 1]
  by (simp add: src_config_def ElementsInLayer_div NumInputs_pow)

section \<open>The unroller's calls\<close>

text \<open>
  Claim C5, as stated, covers \<open>Begin > End\<close> with zero invocations. In the code
  \<^verbatim>\<open>Unroller<1, 0>\<close> never reaches the terminal specialisation: \<^verbatim>\<open>step\<close> does not
  complete with an empty sequence of calls.
\<close>

theorem Unroller_step_1_0:
  "Unroller_step 1 0 record_index [] = None \<and> Unroller_step 1 0 record_index [] \<noteq> Some []"
  by (simp add: Unroller_step_None)

text \<open>
  Claim C5, amended. For \<open>Begin \<le> End\<close>, \<^verbatim>\<open>step\<close> runs the action on the indices
  \<open>Begin, Begin + 1, \<dots>, End - 1\<close>, in this order and once each: \<open>End - Begin\<close> calls,
  strictly increasing, none when \<open>Begin = End\<close>. For \<open>Begin > End\<close> the recursion does not
  end.
\<close>

theorem Unroller_step_indices:
  "(Begin \<le> End \<longrightarrow>
      Unroller_step Begin End action s = Some (fold action [Begin..End - 1] s) \<and>
      Unroller_step Begin End record_index [] = Some [Begin..End - 1] \<and>
      length [Begin..End - 1] = nat (End - Begin) \<and>
      sorted_wrt (<) [Begin..End - 1]) \<and>
   (End < Begin \<longrightarrow> Unroller_step Begin End action s = None)"
proof (intro conjI impI)
  assume le: "Begin \<le> End"
  show "Unroller_step Begin End action s = Some (fold action [Begin..End - 1] s)"
    using le by (rule Unroller_step_fold)
  show "Unroller_step Begin End record_index [] = Some [Begin..End - 1]"
    using Unroller_step_fold [OF le, of record_index "[]"] by (simp add: fold_record_index)
  show "length [Begin..End - 1] = nat (End - Begin)"
    by simp
  show "sorted_wrt (<) [Begin..End - 1]"
    by (rule sorted_wrt_upto)
next
  assume "End < Begin"
  then show "Unroller_step Begin End action s = None"
    by (rule Unroller_step_None)
qed

theorem Unroller_step_indices_witness:
  "(0::int) \<le> 3 \<and> Unroller_step 0 3 record_index [] = Some [0, 1, 2] \<and>
   length [0::int, 1, 2] = nat (3 - 0) \<and>
   (0::int) < 1 \<and> Unroller_step 1 0 record_index [] = None"
  using Unroller_step_indices [of 0 3 record_index "[]"]
    Unroller_step_indices [of 1 0 record_index "[]"]
  by (simp add: upto.simps record_index_def)

section \<open>The test of the source\<close>

text \<open>
  Claim C4. \<^verbatim>\<open>main\<close> expects \<open>(1313, 2016)\<close> for its eight inputs. The reduction
  returns another value: the product of the eight inputs, whose real part
  \<open>40482624000\<close> is outside the 35 bits of \<^verbatim>\<open>OutputT\<close> and wraps to \<open>6122885632\<close>.
\<close>

theorem test_mult_main:
  "test_mult src_config main_in = Inr (ac_complex 6122885632 (- 3942432000)) \<and>
   main_expected = ac_complex 1313 2016 \<and>
   test_mult src_config main_in \<noteq> Inr main_expected"
  by code_simp

section \<open>The result of the reduction\<close>

text \<open>
  When no product of any layer overflows \<^verbatim>\<open>OutputT\<close>, the product of the last layer
  included, the reduction returns the exact product of its inputs; \<open>small_in\<close> is
  such an input.
\<close>

lemma test_mult_exact_product:
  assumes "1 \<le> NumInputsLog2 cfg" and "0 < InputWidth cfg"
    and "int (length inp) = NumInputs cfg"
    and "\<forall>z \<in> set inp. fits (InputWidth cfg) z"
    and "no_overflow cfg inp"
  shows "test_mult cfg inp = Inr (prod_list inp)"
proof -
  have K: "0 \<le> NumInputsLog2 cfg" and IW: "0 \<le> InputWidth cfg"
    using assms(1,2) by simp_all
  from test_mult_WorkingArray [OF K assms(3)]
    ReductionResult_exact [OF K IW length_of_NumInputs [OF assms(3)] assms(4,5)]
  show ?thesis by simp
qed

lemma test_mult_exact_product_small_in:
  "1 \<le> NumInputsLog2 src_config \<and> 0 < InputWidth src_config \<and>
   int (length small_in) = NumInputs src_config \<and>
   list_all (fits (InputWidth src_config)) small_in \<and>
   no_overflow src_config small_in \<and>
   test_mult src_config small_in = Inr (prod_list small_in) \<and>
   prod_list small_in = ac_complex 160 80"
proof -
  have h: "1 \<le> NumInputsLog2 src_config" "0 < InputWidth src_config"
    "int (length small_in) = NumInputs src_config"
    by code_simp+
  have f: "list_all (fits (InputWidth src_config)) small_in"
    by code_simp
  then have f': "\<forall>z \<in> set small_in. fits (InputWidth src_config) z"
    by (simp only: list_all_iff)
  have n: "no_overflow src_config small_in"
    by code_simp
  have v: "prod_list small_in = ac_complex 160 80"
    by code_simp
  from test_mult_exact_product [OF h f' n] h f n v show ?thesis
    by (intro conjI)
qed

text \<open>
  Claim C1. The claim grants only that no intermediate value overflows, and promises
  the exact product of the inputs. On the inputs of \<^verbatim>\<open>main\<close> every input fits 8 bits,
  every product of the layers 0 and 1 fits \<^verbatim>\<open>OutputT\<close> (the stored values even fit the
  17 and 26 bits of their layers), and still the result is not the exact product: the
  last product has the real part \<open>40482624000\<close>, outside the 35 bits that
  \<open>BitWidthAtLayer\<close> gives the final layer, and is returned wrapped.
\<close>

theorem test_mult_main_last_product:
  "int (length main_in) = NumInputs src_config \<and>
   list_all (fits (InputWidth src_config)) main_in \<and>
   no_intermediate_overflow src_config main_in \<and>
   list_all (fits (BitWidthAtLayer src_config 1)) (WorkingArray src_config main_in 1) \<and>
   list_all (fits (BitWidthAtLayer src_config 2)) (WorkingArray src_config main_in 2) \<and>
   WorkingArray src_config main_in 2 = [ac_complex 8000 (- 144000), ac_complex 42864 278748] \<and>
   prod_list main_in = ac_complex 40482624000 (- 3942432000) \<and>
   \<not> fits (OutputWidth src_config) (prod_list main_in) \<and>
   test_mult src_config main_in = Inr (ac_complex 6122885632 (- 3942432000)) \<and>
   test_mult src_config main_in \<noteq> Inr (prod_list main_in)"
  by code_simp

text \<open>
  Claim C2. With every input at \<open>(-128, -128)\<close>, the lower end of the 8-bit range, the
  product computed in layer 1 (for layer 2 of the tree) is \<open>(-2^30, 0)\<close>, which does
  not fit the 26 bits of \<open>BitWidthAtLayer 2\<close>; the last product, \<open>2^60\<close>, does not fit
  the 35 bits of \<^verbatim>\<open>OutputT\<close> and the result wraps to \<open>(0, 0)\<close>.
\<close>

theorem extreme_inputs_overflow:
  "list_all (fits (InputWidth src_config)) extreme_in \<and>
   layer_action src_config 1
     (layer_action src_config 0 (map (ac_conv (OutputWidth src_config)) extreme_in)) ! 0
     = ac_complex (- (2 ^ 30)) 0 \<and>
   BitWidthAtLayer src_config 2 = 26 \<and>
   \<not> fits (BitWidthAtLayer src_config 2) (ac_complex (- (2 ^ 30)) 0) \<and>
   \<not> no_overflow src_config extreme_in \<and>
   prod_list extreme_in = ac_complex (2 ^ 60) 0 \<and>
   test_mult src_config extreme_in = Inr (ac_complex 0 0)"
  by code_simp

text \<open>
  Claim C8. \<^verbatim>\<open>NumInputs\<close> is a power of two by construction, and an input sequence
  of any other length is rejected by the assertion: no result is computed from it. The
  \<^verbatim>\<open>assert\<close> is taken as enabled.
\<close>

theorem test_mult_rejects_length:
  "NumInputs cfg = 2 ^ nat (NumInputsLog2 cfg) \<and>
   (int (length inp) \<noteq> NumInputs cfg \<longrightarrow> test_mult cfg inp = Inl AssertionFailed)"
  by (simp add: test_mult_def NumInputs_pow)

theorem test_mult_rejects_length_witness:
  "int (length (take 7 main_in)) \<noteq> NumInputs src_config \<and>
   test_mult src_config (take 7 main_in) = Inl AssertionFailed \<and>
   int (length (main_in @ main_in)) \<noteq> NumInputs src_config \<and>
   test_mult src_config (main_in @ main_in) = Inl AssertionFailed"
proof -
  have "int (length (take 7 main_in)) \<noteq> NumInputs src_config"
    "int (length (main_in @ main_in)) \<noteq> NumInputs src_config"
    by code_simp+
  then show ?thesis
    using test_mult_rejects_length [of src_config "take 7 main_in"]
      test_mult_rejects_length [of src_config "main_in @ main_in"]
    by simp
qed

text \<open>
  Claim C9. The reduction on the single buffer returns what the reduction with a
  fresh array per layer returns; after each layer \<open>l\<close> the live prefix of the buffer is
  \<open>WorkingArray l\<close>; and within a layer every element written is the product of the
  two elements the buffer held at \<open>2j\<close> and \<open>2j + 1\<close> when the layer began: no write
  comes before a read of the same element.
\<close>

theorem test_mult_in_place:
  assumes "0 \<le> NumInputsLog2 cfg" and "int (length inp) = NumInputs cfg"
  shows "test_mult cfg inp = Inr (ReductionResult cfg inp) \<and>
         (\<forall>l \<le> nat (NumInputsLog2 cfg).
            take (2 ^ (nat (NumInputsLog2 cfg) - l))
              (fold (layer_action cfg) [0..int l - 1] (map (ac_conv (OutputWidth cfg)) inp))
            = WorkingArray cfg inp l) \<and>
         (\<forall>buf layerPairs j. j < length buf \<longrightarrow>
            layer_loop (OutputWidth cfg) 0 layerPairs buf ! j =
              (if int j < layerPairs
               then ac_conv (OutputWidth cfg)
                      (ac_complex_mult (OutputWidth cfg) (buf ! (2 * j)) (buf ! (2 * j + 1)))
               else buf ! j))"
proof (intro conjI allI impI)
  show "test_mult cfg inp = Inr (ReductionResult cfg inp)"
    using assms by (rule test_mult_WorkingArray)
next
  fix l assume "l \<le> nat (NumInputsLog2 cfg)"
  then show "take (2 ^ (nat (NumInputsLog2 cfg) - l))
              (fold (layer_action cfg) [0..int l - 1] (map (ac_conv (OutputWidth cfg)) inp))
            = WorkingArray cfg inp l"
    by (rule fold_layers_WorkingArray [OF assms(1) length_of_NumInputs [OF assms(2)]])
next
  fix buf :: "ac_complex list" and layerPairs :: int and j :: nat
  assume "j < length buf"
  then show "layer_loop (OutputWidth cfg) 0 layerPairs buf ! j =
              (if int j < layerPairs
               then ac_conv (OutputWidth cfg)
                      (ac_complex_mult (OutputWidth cfg) (buf ! (2 * j)) (buf ! (2 * j + 1)))
               else buf ! j)"
    using layer_loop_nth [of 0 j buf "OutputWidth cfg" layerPairs] by simp
qed

theorem test_mult_in_place_witness:
  "0 \<le> NumInputsLog2 src_config \<and> int (length main_in) = NumInputs src_config \<and>
   test_mult src_config main_in = Inr (ReductionResult src_config main_in) \<and>
   ReductionResult src_config main_in = ac_complex 6122885632 (- 3942432000) \<and>
   (1::nat) \<le> nat (NumInputsLog2 src_config) \<and>
   take (2 ^ (nat (NumInputsLog2 src_config) - 1))
     (fold (layer_action src_config) [0..int 1 - 1] (map (ac_conv (OutputWidth src_config)) main_in))
     = WorkingArray src_config main_in 1 \<and>
   WorkingArray src_config main_in 1 =
     [ac_complex (- 150) 200, ac_complex (- 480) 320, ac_complex 87 84, ac_complex 1856 1412] \<and>
   (1::nat) < length main_in \<and>
   layer_loop (OutputWidth src_config) 0 4 main_in ! 1 =
     ac_conv (OutputWidth src_config) (ac_complex_mult (OutputWidth src_config) (main_in ! 2) (main_in ! 3))"
proof -
  have h: "0 \<le> NumInputsLog2 src_config" "int (length main_in) = NumInputs src_config"
    by code_simp+
  have l: "(1::nat) \<le> nat (NumInputsLog2 src_config)" and j: "(1::nat) < length main_in"
    by code_simp+
  have v: "ReductionResult src_config main_in = ac_complex 6122885632 (- 3942432000)"
    "WorkingArray src_config main_in 1 =
     [ac_complex (- 150) 200, ac_complex (- 480) 320, ac_complex 87 84, ac_complex 1856 1412]"
    by code_simp+
  note T = test_mult_in_place [OF h]
  from T have a: "test_mult src_config main_in = Inr (ReductionResult src_config main_in)"
    by (rule conjunct1)
  from T l have b: "take (2 ^ (nat (NumInputsLog2 src_config) - 1))
     (fold (layer_action src_config) [0..int 1 - 1] (map (ac_conv (OutputWidth src_config)) main_in))
     = WorkingArray src_config main_in 1"
    by blast
  from T j have "layer_loop (OutputWidth src_config) 0 4 main_in ! 1 =
     (if int 1 < 4 then ac_conv (OutputWidth src_config)
          (ac_complex_mult (OutputWidth src_config) (main_in ! (2 * 1)) (main_in ! (2 * 1 + 1)))
      else main_in ! 1)"
    by blast
  then have c: "layer_loop (OutputWidth src_config) 0 4 main_in ! 1 =
     ac_conv (OutputWidth src_config) (ac_complex_mult (OutputWidth src_config) (main_in ! 2) (main_in ! 3))"
    by simp
  show ?thesis
    using h l j v a b c by (intro conjI)
qed

text \<open>
  Claim C10. Every value is stored in \<^verbatim>\<open>OutputT\<close>, of part width
  \<open>OutputWidth = BitWidthAtLayer K\<close> (the per-layer type \<^verbatim>\<open>LayerT\<close> is declared and never
  used), so the result is the exact product of the inputs with each part reduced to
  \<open>OutputWidth\<close>-bit two's complement.
\<close>

theorem test_mult_wraps_product:
  assumes "0 \<le> NumInputsLog2 cfg" and "int (length inp) = NumInputs cfg"
  shows "test_mult cfg inp = Inr (ac_conv (OutputWidth cfg) (prod_list inp)) \<and>
         OutputWidth cfg = BitWidthAtLayer cfg (NumInputsLog2 cfg) \<and>
         ac_r (ac_conv (OutputWidth cfg) (prod_list inp)) =
           (ac_r (prod_list inp) + 2 ^ nat (OutputWidth cfg - 1)) mod 2 ^ Suc (nat (OutputWidth cfg - 1))
             - 2 ^ nat (OutputWidth cfg - 1) \<and>
         ac_i (ac_conv (OutputWidth cfg) (prod_list inp)) =
           (ac_i (prod_list inp) + 2 ^ nat (OutputWidth cfg - 1)) mod 2 ^ Suc (nat (OutputWidth cfg - 1))
             - 2 ^ nat (OutputWidth cfg - 1)"
proof (intro conjI)
  show "test_mult cfg inp = Inr (ac_conv (OutputWidth cfg) (prod_list inp))"
    using test_mult_WorkingArray [OF assms] ReductionResult_conv [OF assms(1) length_of_NumInputs [OF assms(2)]]
    by simp
  show "OutputWidth cfg = BitWidthAtLayer cfg (NumInputsLog2 cfg)"
    by (simp add: OutputWidth_def)
  show "ac_r (ac_conv (OutputWidth cfg) (prod_list inp)) =
           (ac_r (prod_list inp) + 2 ^ nat (OutputWidth cfg - 1)) mod 2 ^ Suc (nat (OutputWidth cfg - 1))
             - 2 ^ nat (OutputWidth cfg - 1)"
    by (simp only: ac_conv_def ac_complex.sel ac_int_mod)
  show "ac_i (ac_conv (OutputWidth cfg) (prod_list inp)) =
           (ac_i (prod_list inp) + 2 ^ nat (OutputWidth cfg - 1)) mod 2 ^ Suc (nat (OutputWidth cfg - 1))
             - 2 ^ nat (OutputWidth cfg - 1)"
    by (simp only: ac_conv_def ac_complex.sel ac_int_mod)
qed

theorem test_mult_wraps_product_witness:
  "0 \<le> NumInputsLog2 src_config \<and> int (length main_in) = NumInputs src_config \<and>
   test_mult src_config main_in = Inr (ac_conv (OutputWidth src_config) (prod_list main_in)) \<and>
   prod_list main_in = ac_complex 40482624000 (- 3942432000) \<and>
   ac_conv (OutputWidth src_config) (prod_list main_in) = ac_complex 6122885632 (- 3942432000)"
proof -
  have h: "0 \<le> NumInputsLog2 src_config" "int (length main_in) = NumInputs src_config"
    by code_simp+
  have "prod_list main_in = ac_complex 40482624000 (- 3942432000)"
    by code_simp
  moreover have "ac_conv (OutputWidth src_config) (ac_complex 40482624000 (- 3942432000)) = ac_complex 6122885632 (- 3942432000)"
    by code_simp
  ultimately show ?thesis
    using test_mult_wraps_product [OF h] h by simp
qed

end
